theory Spec2Isabelle
  imports Main "HOL-Library.Word" "HOL-Library.Sublist"
begin

section \<open>Strings of the Go standard library used by the handler\<close>

text \<open>
  Go strings are byte sequences; a \<^typ>\<open>string\<close> is a list of bytes as well.
  \<open>strings.Contains s sub\<close> reports whether \<open>sub\<close> occurs in \<open>s\<close> at some position.
\<close>

fun Contains :: "string \<Rightarrow> string \<Rightarrow> bool" where
  "Contains [] sub = (sub = [])"
| "Contains (c # cs) sub = (prefix sub (c # cs) \<or> Contains cs sub)"

text \<open>
  \<open>strings.Split s sep\<close> for a one-byte separator (the handler only splits on
  \<open>"*"\<close> and \<open>","\<close>): the pieces between the separators, \<open>[""]\<close> for the empty string.
\<close>

fun Split :: "string \<Rightarrow> char \<Rightarrow> string list" where
  "Split [] sep = [[]]"
| "Split (c # cs) sep =
     (if c = sep then [] # Split cs sep
      else (case Split cs sep of [] \<Rightarrow> [[c]] | p # ps \<Rightarrow> (c # p) # ps))"

definition TrimSuffix :: "string \<Rightarrow> string \<Rightarrow> string" where
  "TrimSuffix s suf = (if suffix suf s then take (length s - length suf) s else s)"

text \<open>The verb \<open>%d\<close> of \<open>fmt.Sprintf\<close> on an unsigned number.\<close>

definition digit :: "nat \<Rightarrow> char" where
  "digit n = char_of (48 + n)"

fun itoa :: "nat \<Rightarrow> string" where
  "itoa n = (if n < 10 then [digit n] else itoa (n div 10) @ [digit (n mod 10)])"

declare itoa.simps [simp del]

section \<open>Configuration\<close>

record Record =
  Record_Name :: string
  Record_Type :: string
  Record_Value :: string
  Record_TTL :: "32 word"
  Record_Preference :: "16 word"

record Domain =
  Domain_Name :: string
  Domain_Records :: "Record list"

record Config =
  Servers :: "string list"
  Domains :: "Domain list"
  Cache_TTL :: int

section \<open>DNS messages\<close>

definition TypeA :: "16 word" where "TypeA = 1"
definition TypeCNAME :: "16 word" where "TypeCNAME = 5"
definition TypeMX :: "16 word" where "TypeMX = 15"
definition TypeTXT :: "16 word" where "TypeTXT = 16"
definition TypeAAAA :: "16 word" where "TypeAAAA = 28"
definition TypeHTTPS :: "16 word" where "TypeHTTPS = 65"
definition ClassINET :: "16 word" where "ClassINET = 1"

record Question =
  Question_Name :: string
  Question_Qtype :: "16 word"
  Question_Qclass :: "16 word"

record RR_Header =
  Hdr_Name :: string
  Hdr_Rrtype :: "16 word"
  Hdr_Class :: "16 word"
  Hdr_Ttl :: "32 word"

text \<open>
  A \<open>net.IP\<close> is a byte slice, \<open>nil\<close> (the empty slice) when \<open>net.ParseIP\<close> rejects
  its input. The resource records the handler builds, and \<open>Opaque\<close> for the record
  data of any other kind that an upstream may return. An HTTPS record carries a
  priority, a target and its list of key-value parameters, each an ALPN list here.
\<close>

type_synonym IP = "8 word list"

datatype RData =
    A IP
  | AAAA IP
  | MX "16 word" string
  | CNAME string
  | HTTPS "16 word" string "string list list"
  | Opaque string

datatype RR = RR (Hdr: RR_Header) (Data: RData)

section \<open>The type tables\<close>

definition typeMapList :: "(string \<times> 16 word) list" where
  "typeMapList =
     [(''A'', TypeA), (''AAAA'', TypeAAAA), (''TXT'', TypeTXT),
      (''CNAME'', TypeCNAME), (''MX'', TypeMX), (''HTTPS'', TypeHTTPS)]"

definition typeMap :: "string \<Rightarrow> 16 word option" where
  "typeMap = map_of typeMapList"

text \<open>\<open>init\<close> fills \<open>typeMapRev\<close> with the swapped pairs; the values are distinct.\<close>

definition typeMapRev :: "16 word \<Rightarrow> string option" where
  "typeMapRev = map_of (map (\<lambda>(k, v). (v, k)) typeMapList)"

section \<open>The zone matcher (\<open>match\<close>)\<close>

text \<open>
  The body of the loop over the records of one domain, in the source's order:
  \<open>fqName\<close> is the local \<open>qName\<close>, \<open>wildSuffix\<close> the local \<open>suffix\<close>;
  \<open>nameMatch\<close> holds when neither \<open>continue\<close> of the name test is taken, and
  \<open>hit\<close> when one of the two \<open>return &r\<close> is reached.
\<close>

definition fqName :: "Domain \<Rightarrow> Record \<Rightarrow> string" where
  "fqName d r = Record_Name r @ ''.'' @ Domain_Name d @ ''.''"

definition wildSuffix :: "Domain \<Rightarrow> Record \<Rightarrow> string" where
  "wildSuffix d r =
     (let tmp = Split (Record_Name r) (CHR ''*'');
          rName = (if length tmp > 1 then tmp ! 1 else '''')
      in rName @ ''.'' @ Domain_Name d @ ''.'')"

definition nameMatch :: "Domain \<Rightarrow> Record \<Rightarrow> string \<Rightarrow> bool" where
  "nameMatch d r qn =
     (if fqName d r \<noteq> qn then
        (if \<not> Contains (Record_Name r) ''*'' then False
         else Contains qn (wildSuffix d r))
      else True)"

definition isSame :: "16 word \<Rightarrow> 16 word \<Rightarrow> bool" where
  "isSame qt t = ((qt \<noteq> TypeA \<or> qt \<noteq> TypeAAAA \<or> qt \<noteq> TypeMX) \<and> t = TypeCNAME)"

definition hit :: "Domain \<Rightarrow> Record \<Rightarrow> Question \<Rightarrow> bool" where
  "hit d r q =
     (nameMatch d r (Question_Name q) \<and>
      (case typeMap (Record_Type r) of
         None \<Rightarrow> False
       | Some t \<Rightarrow> t = Question_Qtype q \<or> isSame (Question_Qtype q) t))"

fun matchRecords :: "Domain \<Rightarrow> Record list \<Rightarrow> Question \<Rightarrow> Record option" where
  "matchRecords d [] q = None"
| "matchRecords d (r # rs) q = (if hit d r q then Some r else matchRecords d rs q)"

text \<open>A domain is skipped unless the query name contains its name and the query type is in the table.\<close>

definition candidate :: "Domain \<Rightarrow> Question \<Rightarrow> bool" where
  "candidate d q =
     (Contains (Question_Name q) (Domain_Name d) \<and> typeMapRev (Question_Qtype q) \<noteq> None)"

fun matchDomains :: "Domain list \<Rightarrow> Question \<Rightarrow> Record option" where
  "matchDomains [] q = None"
| "matchDomains (d # ds) q =
     (if \<not> candidate d q then matchDomains ds q
      else (case matchRecords d (Domain_Records d) q of
              Some r \<Rightarrow> Some r
            | None \<Rightarrow> matchDomains ds q))"

text \<open>\<open>match\<close>: \<open>None\<close> is the error "not matched".\<close>

definition match :: "Config \<Rightarrow> Question \<Rightarrow> Record option" where
  "match cfg q = matchDomains (Domains cfg) q"

section \<open>The environment of the handler\<close>

text \<open>
  What the handler reads from outside the repository is a parameter of the model:
  \<open>ParseIP\<close> is \<open>net.ParseIP\<close> of the Go library (\<open>[]\<close> is \<open>nil\<close>);
  \<open>Exchange domain qtype server\<close> is the outcome of \<open>c.Exchange(m, server)\<close> for the
  recursive query that \<open>resolve\<close> builds from \<open>domain\<close> and \<open>qtype\<close>, \<open>Inl\<close> the error
  and \<open>Inr\<close> the answer section of the response; \<open>Now\<close> is the reading of
  \<open>time.Now().Unix()\<close>, in seconds. Within one call the outcome of an exchange
  depends on the question and the server only, and the clock is read once.
\<close>

record Env =
  ParseIP :: "string \<Rightarrow> IP"
  Exchange :: "string \<Rightarrow> 16 word \<Rightarrow> string \<Rightarrow> string + RR list"
  Now :: int

section \<open>The answer cache\<close>

record cacheItem =
  item_expire :: int
  item_value :: "RR list"

type_synonym cache = "string \<rightharpoonup> cacheItem"

definition cacheKey :: "string \<Rightarrow> 16 word \<Rightarrow> string" where
  "cacheKey domain qtype = domain @ ''-'' @ itoa (unat qtype)"

text \<open>Addition of \<open>int64\<close> values wraps around.\<close>

definition wrap64 :: "int \<Rightarrow> int" where
  "wrap64 x = (x + 2 ^ 63) mod 2 ^ 64 - 2 ^ 63"

text \<open>\<open>clearCache\<close> deletes every entry whose \<open>expire\<close> is below the clock.\<close>

definition clearCache :: "int \<Rightarrow> cache \<Rightarrow> cache" where
  "clearCache now c =
     (\<lambda>key. case c key of
               None \<Rightarrow> None
             | Some v \<Rightarrow> if item_expire v < now then None else Some v)"

text \<open>The store of \<open>resolve\<close> (and of the later revision's \<open>ServeDNS\<close>), under \<open>len(answers) > 0\<close>.\<close>

definition saveCache :: "int \<Rightarrow> string \<Rightarrow> RR list \<Rightarrow> cache \<Rightarrow> cache" where
  "saveCache now key answers c =
     (case answers of
        [] \<Rightarrow> c
      | a # _ \<Rightarrow>
          c(key \<mapsto> \<lparr>item_expire = wrap64 (now + uint (Hdr_Ttl (Hdr a))),
                     item_value = answers\<rparr>))"

section \<open>The forwarder (\<open>resolve\<close> of handler.go)\<close>

fun exchangeLoop :: "Env \<Rightarrow> string \<Rightarrow> 16 word \<Rightarrow> cache \<Rightarrow> string list \<Rightarrow> RR list \<times> cache" where
  "exchangeLoop env domain qtype c [] = ([], c)"
| "exchangeLoop env domain qtype c (server # servers) =
     (case Exchange env domain qtype server of
        Inl err \<Rightarrow> exchangeLoop env domain qtype c servers
      | Inr answer \<Rightarrow> (answer, saveCache (Now env) (cacheKey domain qtype) answer c))"

definition resolve :: "Env \<Rightarrow> Config \<Rightarrow> cache \<Rightarrow> string \<Rightarrow> 16 word \<Rightarrow> RR list \<times> cache" where
  "resolve env cfg c domain qtype =
     (case c (cacheKey domain qtype) of
        Some v \<Rightarrow> (item_value v, c)
      | None \<Rightarrow> exchangeLoop env domain qtype c (Servers cfg))"

section \<open>The answer synthesizer and \<open>ServeDNS\<close> of handler.go\<close>

text \<open>\<open>typeMap[r.Type]\<close> is 0 for a key that is not in the table.\<close>

definition typeOf :: "Record \<Rightarrow> 16 word" where
  "typeOf r = (case typeMap (Record_Type r) of None \<Rightarrow> 0 | Some t \<Rightarrow> t)"

text \<open>
  The \<open>switch\<close> of \<open>handleLocal\<close>: the record that a case builds, \<open>None\<close> for the
  \<open>default\<close> case, which only logs.
\<close>

definition localRR :: "Env \<Rightarrow> Question \<Rightarrow> Record \<Rightarrow> RR option" where
  "localRR env question r =
     (let t = typeOf r; qn = Question_Name question in
      if t = TypeA then
        Some (RR \<lparr>Hdr_Name = qn, Hdr_Rrtype = TypeA, Hdr_Class = ClassINET, Hdr_Ttl = Record_TTL r\<rparr>
                 (A (ParseIP env (Record_Value r))))
      else if t = TypeAAAA then
        Some (RR \<lparr>Hdr_Name = qn, Hdr_Rrtype = TypeAAAA, Hdr_Class = ClassINET, Hdr_Ttl = Record_TTL r\<rparr>
                 (AAAA (ParseIP env (Record_Value r))))
      else if t = TypeMX then
        Some (RR \<lparr>Hdr_Name = qn, Hdr_Rrtype = TypeMX, Hdr_Class = ClassINET, Hdr_Ttl = Record_TTL r\<rparr>
                 (MX (Record_Preference r) (Record_Value r)))
      else if t = TypeCNAME then
        Some (RR \<lparr>Hdr_Name = qn, Hdr_Rrtype = TypeCNAME, Hdr_Class = ClassINET, Hdr_Ttl = Record_TTL r\<rparr>
                 (CNAME (TrimSuffix (Record_Value r) ''.'' @ ''.'')))
      else if t = TypeHTTPS then
        Some (RR \<lparr>Hdr_Name = ''.'', Hdr_Rrtype = TypeHTTPS, Hdr_Class = ClassINET, Hdr_Ttl = 0\<rparr>
                 (HTTPS 0 [] [Split (Record_Value r) (CHR '','')]))
      else None)"

text \<open>
  \<open>handleLocal\<close> of handler.go appends to \<open>msg.Answer\<close> and returns a flag; every
  path of the source ends in \<open>return false\<close>.
\<close>

definition handleLocal :: "Env \<Rightarrow> Config \<Rightarrow> Question \<Rightarrow> RR list \<Rightarrow> RR list \<times> bool" where
  "handleLocal env cfg question answer =
     (case match cfg question of
        None \<Rightarrow> (answer, False)
      | Some r \<Rightarrow>
          (case localRR env question r of
             Some a \<Rightarrow> (answer @ [a], False)
           | None \<Rightarrow> (answer, False)))"

text \<open>One round of the loop over \<open>r.Question\<close>; the state is \<open>msg.Answer\<close> and the cache.\<close>

definition serveQuestion :: "Env \<Rightarrow> Config \<Rightarrow> RR list \<times> cache \<Rightarrow> Question \<Rightarrow> RR list \<times> cache" where
  "serveQuestion env cfg st question =
     (let (answer1, handled) = handleLocal env cfg question (fst st) in
      if handled then (answer1, snd st)
      else
        (let (answers, c') = resolve env cfg (snd st) (Question_Name question) (Question_Qtype question)
         in (answer1 @ answers, c')))"

definition ServeDNS :: "Env \<Rightarrow> Config \<Rightarrow> cache \<Rightarrow> Question list \<Rightarrow> RR list \<times> cache" where
  "ServeDNS env cfg c questions = foldl (serveQuestion env cfg) ([], c) questions"

section \<open>The revision with an upstream pool\<close>

text \<open>
  The revision of the handler with \<open>watch\<close> has the same \<open>match\<close>, \<open>clearCache\<close> and
  type tables; what differs carries the suffix 2 here (\<open>resolve2\<close>, \<open>handleLocal2\<close>,
  \<open>ServeDNS2\<close>). It keeps the live upstreams in \<open>h.upstream\<close>, a map
  from the server address to the \<open>upstream\<close> object of that address. Only the key set
  of the map is read (by \<open>Load\<close>, and by \<open>Range\<close>, whose value has the key as its
  \<open>server\<close>), so the map is its key set here.
\<close>

record upstream =
  server :: string
  heatbeat :: int
  failed :: int

definition IsDead :: "upstream \<Rightarrow> bool" where
  "IsDead s = (failed s > 20)"

text \<open>
  The body of \<open>loop\<close> in \<open>watch\<close> for one upstream. \<open>probe server\<close> is the message
  \<open>in\<close> that \<open>c.Exchange\<close> returns for the test query: \<open>None\<close> is \<open>nil\<close>, \<open>Some\<close> holds
  its answer section.
\<close>

definition checkUpstream ::
  "(string \<Rightarrow> RR list option) \<Rightarrow> int \<Rightarrow> upstream \<Rightarrow> string set \<Rightarrow> upstream \<times> string set" where
  "checkUpstream probe now up pool =
     (if IsDead up then (up, pool)
      else
        (let inp = probe (server up);
             up1 = up\<lparr>heatbeat := now\<rparr>;
             ok = (server up \<in> pool)
         in if inp \<noteq> None \<and> length (the inp) > 0
            then (up1\<lparr>failed := 0\<rparr>, insert (server up) pool)
            else
              (let up2 = up1\<lparr>failed := failed up1 + 1\<rparr>
               in if ok \<and> failed up2 \<ge> 5 then (up2, pool - {server up}) else (up2, pool))))"

fun loop ::
  "(string \<Rightarrow> RR list option) \<Rightarrow> int \<Rightarrow> upstream list \<Rightarrow> string set \<Rightarrow> upstream list \<times> string set" where
  "loop probe now [] pool = ([], pool)"
| "loop probe now (up # ups) pool =
     (let (up', pool') = checkUpstream probe now up pool;
          (ups', pool'') = loop probe now ups pool'
      in (up' # ups', pool''))"

text \<open>\<open>watch\<close> starts from one fresh upstream per configured server and an empty pool.\<close>

definition watchInit :: "Config \<Rightarrow> upstream list \<times> string set" where
  "watchInit cfg = (map (\<lambda>s. \<lparr>server = s, heatbeat = 0, failed = 0\<rparr>) (Servers cfg), {})"

text \<open>The first rounds of the endless \<open>for\<close> of \<open>watch\<close>, one probe outcome and clock per round.\<close>

fun watch ::
  "((string \<Rightarrow> RR list option) \<times> int) list \<Rightarrow> upstream list \<times> string set \<Rightarrow> upstream list \<times> string set" where
  "watch [] st = st"
| "watch ((probe, now) # rounds) st = watch rounds (loop probe now (fst st) (snd st))"

text \<open>
  The state of \<open>watch\<close> that the rounds keep: the addresses are distinct and an
  upstream whose address is in the pool has fewer than 5 failures.
\<close>

definition pooledBelow5 :: "upstream list \<times> string set \<Rightarrow> bool" where
  "pooledBelow5 st =
     (distinct (map server (fst st)) \<and>
      (\<forall>up \<in> set (fst st). server up \<in> snd st \<longrightarrow> 0 \<le> failed up \<and> failed up < 5))"

text \<open>
  \<open>resolve\<close> of this revision: \<open>Range\<close> visits the pool in an order that the map does
  not fix; \<open>order\<close> is that order. The first exchange without an error ends the walk.
\<close>

fun resolve2 :: "Env \<Rightarrow> string \<Rightarrow> 16 word \<Rightarrow> string list \<Rightarrow> RR list" where
  "resolve2 env domain qtype [] = []"
| "resolve2 env domain qtype (up # order) =
     (case Exchange env domain qtype up of
        Inl err \<Rightarrow> resolve2 env domain qtype order
      | Inr answer \<Rightarrow> answer)"

text \<open>\<open>handleLocal\<close> of this revision returns the answers of the question and a flag.\<close>

definition handleLocal2 :: "Env \<Rightarrow> Config \<Rightarrow> Question \<Rightarrow> RR list \<times> bool" where
  "handleLocal2 env cfg question =
     (case match cfg question of
        None \<Rightarrow> ([], False)
      | Some r \<Rightarrow>
          (case localRR env question r of
             Some a \<Rightarrow> ([a], True)
           | None \<Rightarrow> ([], False)))"

text \<open>
  One round of the loop over \<open>r.Question\<close> in \<open>ServeDNS\<close> of this revision: the
  cache is read first, and whatever the local zone or the upstream answers is stored.
\<close>

definition serveQuestion2 ::
  "Env \<Rightarrow> Config \<Rightarrow> string list \<Rightarrow> RR list \<times> cache \<Rightarrow> Question \<Rightarrow> RR list \<times> cache" where
  "serveQuestion2 env cfg order st question =
     (let key = cacheKey (Question_Name question) (Question_Qtype question);
          cacheValue = (case snd st key of None \<Rightarrow> [] | Some v \<Rightarrow> item_value v);
          answer1 = fst st @ cacheValue
      in if length cacheValue > 0 then (answer1, snd st)
         else
           (let (local, ok) = handleLocal2 env cfg question;
                answers = (if \<not> ok then resolve2 env (Question_Name question) (Question_Qtype question) order
                           else local)
            in (answer1 @ answers, saveCache (Now env) key answers (snd st))))"

definition ServeDNS2 ::
  "Env \<Rightarrow> Config \<Rightarrow> string list \<Rightarrow> cache \<Rightarrow> Question list \<Rightarrow> RR list \<times> cache" where
  "ServeDNS2 env cfg order c questions = foldl (serveQuestion2 env cfg order) ([], c) questions"

section \<open>Runs of the operations on the cache\<close>

text \<open>
  The cache is written by the eviction sweep (\<open>clearCache\<close>, every ten seconds), by
  \<open>resolve\<close> of handler.go and, in the revision with the pool, by a round of
  \<open>ServeDNS\<close>, whose effect on the cache does not depend on the answers collected so far.
\<close>

datatype cacheOp =
    Sweep int
  | Forward Env Config string "16 word"
  | Serve2 Env Config "string list" Question

fun applyOp :: "cacheOp \<Rightarrow> cache \<Rightarrow> cache" where
  "applyOp (Sweep now) c = clearCache now c"
| "applyOp (Forward env cfg domain qtype) c = snd (resolve env cfg c domain qtype)"
| "applyOp (Serve2 env cfg order question) c = snd (serveQuestion2 env cfg order ([], c) question)"

definition run :: "cacheOp list \<Rightarrow> cache \<Rightarrow> cache" where
  "run ops c = fold applyOp ops c"


section \<open>Example configurations\<close>

definition wwwRecord :: Record where
  "wwwRecord = \<lparr>Record_Name = ''www'', Record_Type = ''A'', Record_Value = ''1.2.3.4'',
                 Record_TTL = 300, Record_Preference = 0\<rparr>"

definition starRecord :: Record where
  "starRecord = \<lparr>Record_Name = ''*'', Record_Type = ''A'', Record_Value = ''5.6.7.8'',
                  Record_TTL = 60, Record_Preference = 0\<rparr>"

definition twoStarRecord :: Record where
  "twoStarRecord = \<lparr>Record_Name = ''a*b*c'', Record_Type = ''A'', Record_Value = ''5.6.7.8'',
                     Record_TTL = 60, Record_Preference = 0\<rparr>"

definition aliasRecord :: Record where
  "aliasRecord = \<lparr>Record_Name = ''*'', Record_Type = ''CNAME'', Record_Value = ''host.example.org'',
                   Record_TTL = 120, Record_Preference = 0\<rparr>"

definition wwwAliasRecord :: Record where
  "wwwAliasRecord = \<lparr>Record_Name = ''www'', Record_Type = ''CNAME'', Record_Value = ''web.example.org'',
                      Record_TTL = 120, Record_Preference = 0\<rparr>"

definition txtRecord :: Record where
  "txtRecord = \<lparr>Record_Name = ''note'', Record_Type = ''TXT'', Record_Value = ''hello'',
                 Record_TTL = 300, Record_Preference = 0\<rparr>"

definition httpsRecord :: Record where
  "httpsRecord = \<lparr>Record_Name = ''web'', Record_Type = ''HTTPS'', Record_Value = ''h2,http/1.1'',
                   Record_TTL = 300, Record_Preference = 0\<rparr>"

definition badRecord :: Record where
  "badRecord = \<lparr>Record_Name = ''bad'', Record_Type = ''A'', Record_Value = ''not-an-ip'',
                 Record_TTL = 30, Record_Preference = 0\<rparr>"

definition exampleZone :: "Record list \<Rightarrow> Domain" where
  "exampleZone rs = \<lparr>Domain_Name = ''example.com'', Domain_Records = rs\<rparr>"

definition exampleConfig :: "Record list \<Rightarrow> Config" where
  "exampleConfig rs =
     \<lparr>Servers = [''8.8.8.8:53'', ''1.1.1.1:53''], Domains = [exampleZone rs], Cache_TTL = 0\<rparr>"

definition ask :: "string \<Rightarrow> 16 word \<Rightarrow> Question" where
  "ask name qtype = \<lparr>Question_Name = name, Question_Qtype = qtype, Question_Qclass = ClassINET\<rparr>"

text \<open>\<open>net.ParseIP\<close> on the two values of the examples: the 16-byte form of 1.2.3.4, and \<open>nil\<close>.\<close>

definition exampleParseIP :: "string \<Rightarrow> IP" where
  "exampleParseIP s =
     (if s = ''1.2.3.4'' then [0, 0, 0, 0, 0, 0, 0, 0, 0, 0, 255, 255, 1, 2, 3, 4] else [])"

definition exampleEnv :: "(string \<Rightarrow> 16 word \<Rightarrow> string \<Rightarrow> string + RR list) \<Rightarrow> Env" where
  "exampleEnv ex = \<lparr>ParseIP = exampleParseIP, Exchange = ex, Now = 1000\<rparr>"

definition upstreamRR :: "string \<Rightarrow> 32 word \<Rightarrow> RR" where
  "upstreamRR name ttl =
     RR \<lparr>Hdr_Name = name, Hdr_Rrtype = TypeA, Hdr_Class = ClassINET, Hdr_Ttl = ttl\<rparr>
        (A [0, 0, 0, 0, 0, 0, 0, 0, 0, 0, 255, 255, 9, 9, 9, 9])"

text \<open>Three upstream behaviours: every server answers; the first server answers with an
  empty answer section; the first server fails with an error.\<close>

definition allAnswer :: "string \<Rightarrow> 16 word \<Rightarrow> string \<Rightarrow> string + RR list" where
  "allAnswer domain qtype srv = Inr [upstreamRR domain 30]"

definition firstEmpty :: "string \<Rightarrow> 16 word \<Rightarrow> string \<Rightarrow> string + RR list" where
  "firstEmpty domain qtype srv =
     (if srv = ''8.8.8.8:53'' then Inr [] else Inr [upstreamRR domain 30])"

definition firstFails :: "string \<Rightarrow> 16 word \<Rightarrow> string \<Rightarrow> string + RR list" where
  "firstFails domain qtype srv =
     (if srv = ''8.8.8.8:53'' then Inl ''i/o timeout'' else Inr [upstreamRR domain 30, upstreamRR domain 10])"

definition probeAnswers :: "string \<Rightarrow> RR list option" where
  "probeAnswers srv = Some [upstreamRR ''www.baidu.com.'' 30]"

section \<open>Unfolding rules\<close>

lemmas dns_consts =
  TypeA_def TypeCNAME_def TypeMX_def TypeTXT_def TypeAAAA_def TypeHTTPS_def ClassINET_def

lemmas match_defs =
  match_def candidate_def hit_def nameMatch_def fqName_def wildSuffix_def isSame_def
  typeMap_def typeMapRev_def typeMapList_def dns_consts

section \<open>Facts about the strings and the matcher\<close>

lemma Contains_sublist: "Contains s sub \<longleftrightarrow> sublist sub s"
  by (induction s) (auto simp: sublist_Cons_right)

lemma Contains_iff: "Contains s sub \<longleftrightarrow> (\<exists>p t. s = p @ sub @ t)"
  by (simp add: Contains_sublist sublist_def)

lemma Contains_char: "Contains s [c] \<longleftrightarrow> c \<in> set s"
  by (induction s) auto

lemma suffix_Contains: "suffix sub s \<Longrightarrow> Contains s sub"
proof -
  assume "suffix sub s"
  then obtain zs where "s = zs @ sub @ []"
    by (auto simp: suffix_def)
  then show ?thesis
    unfolding Contains_iff by blast
qed

lemma Split_notin: "sep \<notin> set s \<Longrightarrow> Split s sep = [s]"
  by (induction s) auto

lemma Split_first: "sep \<notin> set p \<Longrightarrow> Split (p @ sep # s) sep = p # Split s sep"
  by (induction p) auto

lemma single_token_split:
  assumes "count_list s c = 1"
  shows "\<exists>p t. s = p @ c # t \<and> c \<notin> set p \<and> c \<notin> set t"
  using assms
proof (induction s)
  case Nil
  then show ?case by simp
next
  case (Cons x xs)
  show ?case
  proof (cases "x = c")
    case True
    with Cons.prems have "count_list xs c = 0" by simp
    then have "c \<notin> set xs" by (simp add: count_list_0_iff)
    with True show ?thesis by (intro exI [of _ "[]"] exI [of _ xs]) simp
  next
    case False
    with Cons.prems have "count_list xs c = 1" by simp
    from Cons.IH [OF this] obtain p t where "xs = p @ c # t" "c \<notin> set p" "c \<notin> set t"
      by blast
    with False show ?thesis by (intro exI [of _ "x # p"] exI [of _ t]) simp
  qed
qed

lemma matchRecords_None: "matchRecords d rs q = None \<longleftrightarrow> (\<forall>r \<in> set rs. \<not> hit d r q)"
  by (induction rs) auto

lemma matchRecords_Some: "matchRecords d rs q = Some r \<Longrightarrow> r \<in> set rs \<and> hit d r q"
  by (induction rs) (auto split: if_splits)

lemma matchRecords_first:
  "\<forall>r' \<in> set rs1. \<not> hit d r' q \<Longrightarrow> hit d r q \<Longrightarrow> matchRecords d (rs1 @ r # rs2) q = Some r"
  by (induction rs1) auto

lemma matchDomains_skip:
  "\<forall>d' \<in> set ds1. candidate d' q \<longrightarrow> (\<forall>r' \<in> set (Domain_Records d'). \<not> hit d' r' q) \<Longrightarrow>
   matchDomains (ds1 @ ds) q = matchDomains ds q"
  by (induction ds1) (auto simp: matchRecords_None[symmetric] split: option.splits)

lemma matchDomains_unsupported: "typeMapRev (Question_Qtype q) = None \<Longrightarrow> matchDomains ds q = None"
  by (induction ds) (auto simp: candidate_def)

lemma matchDomains_Some:
  "matchDomains ds q = Some r \<Longrightarrow> \<exists>d \<in> set ds. candidate d q \<and> r \<in> set (Domain_Records d) \<and> hit d r q"
  by (induction ds) (auto split: if_splits option.splits dest: matchRecords_Some)

lemma match_first:
  assumes doms: "Domains cfg = ds1 @ d # ds2"
    and recs: "Domain_Records d = rs1 @ r # rs2"
    and earlier_domains:
      "\<forall>d' \<in> set ds1. candidate d' q \<longrightarrow> (\<forall>r' \<in> set (Domain_Records d'). \<not> hit d' r' q)"
    and earlier_records: "\<forall>r' \<in> set rs1. \<not> hit d r' q"
    and cand: "candidate d q"
    and h: "hit d r q"
  shows "match cfg q = Some r"
proof -
  have "matchRecords d (Domain_Records d) q = Some r"
    unfolding recs using earlier_records h by (rule matchRecords_first)
  then have "matchDomains (d # ds2) q = Some r"
    using cand by simp
  then show ?thesis
    unfolding match_def doms using matchDomains_skip [OF earlier_domains] by simp
qed

lemma typeMapRev_Some:
  "typeMapRev t \<noteq> None \<longleftrightarrow> t \<in> {TypeA, TypeAAAA, TypeTXT, TypeCNAME, TypeMX, TypeHTTPS}"
  by (auto simp: typeMapRev_def typeMapList_def)

lemma typeMap_CNAME: "typeMap s = Some TypeCNAME \<longleftrightarrow> s = ''CNAME''"
  by (auto simp: typeMap_def typeMapList_def dns_consts split: if_splits)

lemma isSame_CNAME: "isSame qt t \<longleftrightarrow> t = TypeCNAME"
  by (auto simp: isSame_def dns_consts)

lemma fqName_Contains_domain: "Contains (fqName d r) (Domain_Name d)"
  unfolding Contains_iff fqName_def
  by (intro exI [of _ "Record_Name r @ ''.''"] exI [of _ "''.''"]) simp

lemma typeOf_Some: "typeMap (Record_Type r) = Some t \<Longrightarrow> typeOf r = t"
  by (simp add: typeOf_def)

lemma wildSuffix_single:
  assumes "count_list (Record_Name r) (CHR ''*'') = 1"
  shows "suffix (wildSuffix d r) (fqName d r)"
proof -
  from single_token_split [OF assms] obtain p t
    where n: "Record_Name r = p @ CHR ''*'' # t" and p: "CHR ''*'' \<notin> set p" and t: "CHR ''*'' \<notin> set t"
    by blast
  have "Split (Record_Name r) (CHR ''*'') = [p, t]"
    unfolding n by (simp add: Split_first [OF p] Split_notin [OF t])
  then have "wildSuffix d r = t @ ''.'' @ Domain_Name d @ ''.''"
    by (simp add: wildSuffix_def)
  then show ?thesis
    by (simp add: fqName_def n suffix_def)
qed

lemma match_www:
  "match (exampleConfig [wwwRecord]) (ask ''www.example.com.'' TypeA) = Some wwwRecord"
  by (simp add: match_defs wwwRecord_def exampleZone_def exampleConfig_def ask_def)

section \<open>Facts about the cache, the forwarder and the pool\<close>

lemma wrap64_id: "- (2 ^ 63) \<le> x \<Longrightarrow> x < 2 ^ 63 \<Longrightarrow> wrap64 x = x"
  by (simp add: wrap64_def)

lemma saveCache_lookup:
  "saveCache now key (a # as) c key =
     Some \<lparr>item_expire = wrap64 (now + uint (Hdr_Ttl (Hdr a))), item_value = a # as\<rparr>"
  by (simp add: saveCache_def)


lemma saveCache_Nil: "saveCache now key [] c = c"
  by (simp add: saveCache_def)

lemma saveCache_new:
  assumes "saveCache now key answers c k = Some item" and "c k \<noteq> Some item"
  shows "k = key \<and> (\<exists>a as. answers = a # as \<and> item_value item = a # as \<and>
           item_expire item = wrap64 (now + uint (Hdr_Ttl (Hdr a))))"
  using assms by (cases answers) (auto simp: saveCache_def split: if_splits)

lemma exchangeLoop_skip:
  "\<forall>x \<in> set failedServers. \<exists>e. Exchange env domain qtype x = Inl e \<Longrightarrow>
   exchangeLoop env domain qtype c (failedServers @ servers) = exchangeLoop env domain qtype c servers"
  by (induction failedServers) auto

lemma resolve2_skip:
  "\<forall>x \<in> set failedServers. \<exists>e. Exchange env domain qtype x = Inl e \<Longrightarrow>
   resolve2 env domain qtype (failedServers @ servers) = resolve2 env domain qtype servers"
  by (induction failedServers) auto

lemma exchangeLoop_result:
  "exchangeLoop env domain qtype c servers = ([], c) \<or>
   (\<exists>answer. exchangeLoop env domain qtype c servers =
      (answer, saveCache (Now env) (cacheKey domain qtype) answer c))"
  by (induction servers) (auto split: sum.splits)

lemma resolve_cache:
  "snd (resolve env cfg c domain qtype) = c \<or>
   snd (resolve env cfg c domain qtype) =
     saveCache (Now env) (cacheKey domain qtype) (fst (resolve env cfg c domain qtype)) c"
  using exchangeLoop_result [of env domain qtype c "Servers cfg"]
  by (auto simp: resolve_def split: option.splits)

lemma resolve_all_fail:
  assumes "c (cacheKey domain qtype) = None"
    and "\<forall>x \<in> set (Servers cfg). \<exists>e. Exchange env domain qtype x = Inl e"
  shows "resolve env cfg c domain qtype = ([], c)"
  using assms exchangeLoop_skip [of "Servers cfg" env domain qtype c "[]"]
  by (simp add: resolve_def)

lemma resolve_hit: "c (cacheKey domain qtype) = Some v \<Longrightarrow> resolve env cfg c domain qtype = (item_value v, c)"
  by (simp add: resolve_def)


lemma serveQuestion2_cache:
  "snd (serveQuestion2 env cfg order st question) = snd st \<or>
   (\<exists>answers. snd (serveQuestion2 env cfg order st question) =
      saveCache (Now env) (cacheKey (Question_Name question) (Question_Qtype question)) answers (snd st))"
  by (auto simp: serveQuestion2_def Let_def split: prod.splits)




lemma clearCache_Some: "clearCache now c k = Some v \<Longrightarrow> c k = Some v \<and> now \<le> item_expire v"
  by (auto simp: clearCache_def split: option.splits if_splits)


lemma applyOp_nonempty:
  assumes inv: "\<And>k v. c k = Some v \<Longrightarrow> item_value v \<noteq> []"
    and new: "applyOp op c k = Some v"
  shows "item_value v \<noteq> []"
proof (cases "c k = Some v")
  case True
  then show ?thesis by (rule inv)
next
  case False
  show ?thesis
  proof (cases op)
    case (Sweep now)
    with new False show ?thesis
      by (auto dest: clearCache_Some)
  next
    case (Forward env cfg domain qtype)
    with new False resolve_cache [of env cfg c domain qtype]
    obtain answers where "saveCache (Now env) (cacheKey domain qtype) answers c k = Some v"
      by auto
    from saveCache_new [OF this False] show ?thesis
      by auto
  next
    case (Serve2 env cfg order question)
    with new False serveQuestion2_cache [of env cfg order "([], c)" question]
    obtain key answers where "saveCache (Now env) key answers c k = Some v"
      by auto
    from saveCache_new [OF this False] show ?thesis
      by auto
  qed
qed

lemma fold_applyOp_nonempty:
  assumes "\<And>k v. c k = Some v \<Longrightarrow> item_value v \<noteq> []"
    and "fold applyOp ops c k = Some v"
  shows "item_value v \<noteq> []"
  using assms
proof (induction ops arbitrary: c k v)
  case Nil
  then show ?case by simp
next
  case (Cons op ops)
  have "\<And>k v. applyOp op c k = Some v \<Longrightarrow> item_value v \<noteq> []"
    using applyOp_nonempty [of c op] Cons.prems(1) by blast
  from Cons.IH [OF this] Cons.prems(2) show ?case
    by simp
qed

lemma handleLocal_never_handles: "snd (handleLocal env cfg question answer) = False"
  by (simp add: handleLocal_def split: option.splits)

text \<open>In handler.go every question reaches \<open>resolve\<close>, matched or not.\<close>
lemma serveQuestion_always_forwards:
  "serveQuestion env cfg (answer, c) question =
     (fst (handleLocal env cfg question answer) @
        fst (resolve env cfg c (Question_Name question) (Question_Qtype question)),
      snd (resolve env cfg c (Question_Name question) (Question_Qtype question)))"
proof -
  obtain answer1 handled where hl: "handleLocal env cfg question answer = (answer1, handled)"
    by (cases "handleLocal env cfg question answer")
  with handleLocal_never_handles [of env cfg question answer] have "handled = False"
    by simp
  with hl show ?thesis
    by (simp add: serveQuestion_def split: prod.splits)
qed

lemma serveQuestion2_cache_only:
  "snd (serveQuestion2 env cfg order (answer, c) question) =
   snd (serveQuestion2 env cfg order ([], c) question)"
  by (simp add: serveQuestion2_def Let_def split: prod.splits)

text \<open>
  What a whole message does to the cache is a run of the operations: one forward per
  question in handler.go, one round per question in the revision with the pool.
\<close>
lemma ServeDNS_run:
  "snd (foldl (serveQuestion env cfg) (answer, c) questions) =
   run (map (\<lambda>q. Forward env cfg (Question_Name q) (Question_Qtype q)) questions) c"
proof (induction questions arbitrary: answer c)
  case Nil
  then show ?case by (simp add: run_def)
next
  case (Cons q questions)
  obtain answer' where
    "serveQuestion env cfg (answer, c) q =
       (answer', snd (resolve env cfg c (Question_Name q) (Question_Qtype q)))"
    by (simp add: serveQuestion_always_forwards)
  with Cons.IH [of answer' "snd (resolve env cfg c (Question_Name q) (Question_Qtype q))"]
  show ?case
    by (simp add: run_def)
qed

lemma ServeDNS2_run:
  "snd (foldl (serveQuestion2 env cfg order) (answer, c) questions) =
   run (map (Serve2 env cfg order) questions) c"
proof (induction questions arbitrary: answer c)
  case Nil
  then show ?case by (simp add: run_def)
next
  case (Cons q questions)
  obtain answer' c' where step: "serveQuestion2 env cfg order (answer, c) q = (answer', c')"
    by (cases "serveQuestion2 env cfg order (answer, c) q")
  with serveQuestion2_cache_only [of env cfg order answer c q]
  have "c' = snd (serveQuestion2 env cfg order ([], c) q)"
    by simp
  with Cons.IH [of answer' c'] step show ?case
    by (simp add: run_def)
qed

lemma dead_upstream_is_skipped: "IsDead up \<Longrightarrow> checkUpstream probe now up pool = (up, pool)"
  by (simp add: checkUpstream_def)

lemma checkUpstream_other:
  "s \<noteq> server up \<Longrightarrow> s \<in> snd (checkUpstream probe now up pool) \<longleftrightarrow> s \<in> pool"
  by (auto simp: checkUpstream_def Let_def)

lemma checkUpstream_server: "server (fst (checkUpstream probe now up pool)) = server up"
  by (simp add: checkUpstream_def Let_def)

lemma checkUpstream_pooled:
  assumes "server up \<in> pool \<longrightarrow> 0 \<le> failed up \<and> failed up < 5"
    and "server up \<in> snd (checkUpstream probe now up pool)"
  shows "0 \<le> failed (fst (checkUpstream probe now up pool)) \<and>
         failed (fst (checkUpstream probe now up pool)) < 5"
  using assms by (auto simp: checkUpstream_def Let_def IsDead_def split: if_splits)

lemma loop_Cons:
  "loop probe now (up # ups) pool =
     (fst (checkUpstream probe now up pool) #
        fst (loop probe now ups (snd (checkUpstream probe now up pool))),
      snd (loop probe now ups (snd (checkUpstream probe now up pool))))"
  by (simp split: prod.splits)

lemma loop_other:
  "s \<notin> server ` set ups \<Longrightarrow> s \<in> snd (loop probe now ups pool) \<longleftrightarrow> s \<in> pool"
proof (induction ups arbitrary: pool)
  case Nil
  then show ?case by simp
next
  case (Cons up ups)
  from Cons.prems have "s \<noteq> server up" and rest: "s \<notin> server ` set ups"
    by auto
  then have "s \<in> snd (checkUpstream probe now up pool) \<longleftrightarrow> s \<in> pool"
    by (simp add: checkUpstream_other)
  with Cons.IH [OF rest, of "snd (checkUpstream probe now up pool)"] show ?case
    by (simp only: loop_Cons snd_conv)
qed

lemma loop_servers: "map server (fst (loop probe now ups pool)) = map server ups"
proof (induction ups arbitrary: pool)
  case Nil
  then show ?case by simp
next
  case (Cons up ups)
  show ?case
    by (simp only: loop_Cons fst_conv list.map checkUpstream_server Cons.IH)
qed

text \<open>
  One round of the probe loop over upstreams with distinct addresses: what the round
  does to the \<open>i\<close>-th upstream and to its address in the pool is what its own step
  does, from a pool that holds the address exactly when the pool of the round did.
\<close>
lemma loop_nth:
  assumes "distinct (map server ups)" and "i < length ups"
  shows "\<exists>pool0. fst (loop probe now ups pool) ! i = fst (checkUpstream probe now (ups ! i) pool0) \<and>
           (server (ups ! i) \<in> pool0 \<longleftrightarrow> server (ups ! i) \<in> pool) \<and>
           (server (ups ! i) \<in> snd (loop probe now ups pool) \<longleftrightarrow>
              server (ups ! i) \<in> snd (checkUpstream probe now (ups ! i) pool0))"
  using assms
proof (induction ups arbitrary: pool i)
  case Nil
  then show ?case by simp
next
  case (Cons up ups)
  let ?pool' = "snd (checkUpstream probe now up pool)"
  show ?case
  proof (cases i)
    case 0
    from Cons.prems have "server up \<notin> server ` set ups"
      by auto
    from loop_other [OF this, of probe now ?pool']
    have "server up \<in> snd (loop probe now ups ?pool') \<longleftrightarrow> server up \<in> ?pool'" .
    with 0 show ?thesis
      by (intro exI [of _ pool]) (simp only: loop_Cons fst_conv snd_conv nth_Cons_0 simp_thms)
  next
    case (Suc j)
    with Cons.prems have d: "distinct (map server ups)" and j: "j < length ups"
      by auto
    from j have "server (ups ! j) \<in> server ` set ups"
      by simp
    with Cons.prems have "server (ups ! j) \<noteq> server up"
      by auto
    then have same: "server (ups ! j) \<in> ?pool' \<longleftrightarrow> server (ups ! j) \<in> pool"
      by (simp add: checkUpstream_other)
    from Cons.IH [OF d j, of ?pool'] obtain pool0
      where "fst (loop probe now ups ?pool') ! j = fst (checkUpstream probe now (ups ! j) pool0)"
        and "server (ups ! j) \<in> pool0 \<longleftrightarrow> server (ups ! j) \<in> ?pool'"
        and "server (ups ! j) \<in> snd (loop probe now ups ?pool') \<longleftrightarrow>
             server (ups ! j) \<in> snd (checkUpstream probe now (ups ! j) pool0)"
      by blast
    with Suc same show ?thesis
      by (intro exI [of _ pool0]) (simp only: loop_Cons fst_conv snd_conv nth_Cons_Suc simp_thms)
  qed
qed

text \<open>
  Along \<open>watch\<close>, an upstream in the pool has fewer than 5 failures, so it leaves
  the pool exactly when its counter becomes 5, and it is probed again in the next round.
\<close>
lemma loop_pooledBelow5:
  assumes "pooledBelow5 (ups, pool)"
  shows "pooledBelow5 (loop probe now ups pool)"
proof -
  let ?ups' = "fst (loop probe now ups pool)"
  let ?pool' = "snd (loop probe now ups pool)"
  from assms have d: "distinct (map server ups)"
    and inv: "\<forall>up \<in> set ups. server up \<in> pool \<longrightarrow> 0 \<le> failed up \<and> failed up < 5"
    by (simp_all add: pooledBelow5_def)
  have len: "length ?ups' = length ups"
    using loop_servers [of probe now ups pool] by (metis length_map)
  have "0 \<le> failed up' \<and> failed up' < 5" if "up' \<in> set ?ups'" and "server up' \<in> ?pool'" for up'
  proof -
    from that(1) len obtain i where i: "i < length ups" and up': "up' = ?ups' ! i"
      by (metis in_set_conv_nth)
    from loop_nth [OF d i, of probe now pool] obtain pool0
      where own: "?ups' ! i = fst (checkUpstream probe now (ups ! i) pool0)"
        and before: "server (ups ! i) \<in> pool0 \<longleftrightarrow> server (ups ! i) \<in> pool"
        and after: "server (ups ! i) \<in> ?pool' \<longleftrightarrow>
                    server (ups ! i) \<in> snd (checkUpstream probe now (ups ! i) pool0)"
      by blast
    have same: "server up' = server (ups ! i)"
      unfolding up' own by (rule checkUpstream_server)
    from i inv before have "server (ups ! i) \<in> pool0 \<longrightarrow> 0 \<le> failed (ups ! i) \<and> failed (ups ! i) < 5"
      by simp
    moreover from that(2) same after
    have "server (ups ! i) \<in> snd (checkUpstream probe now (ups ! i) pool0)"
      by simp
    ultimately show ?thesis
      unfolding up' own by (rule checkUpstream_pooled)
  qed
  moreover have "distinct (map server ?ups')"
    using d by (simp add: loop_servers)
  ultimately show ?thesis
    by (simp add: pooledBelow5_def)
qed

lemma watch_pooledBelow5:
  assumes "pooledBelow5 st"
  shows "pooledBelow5 (watch rounds st)"
  using assms
proof (induction rounds arbitrary: st)
  case Nil
  then show ?case by simp
next
  case (Cons round rounds)
  obtain probe now where round: "round = (probe, now)"
    by (cases round)
  from Cons.prems have "pooledBelow5 (loop probe now (fst st) (snd st))"
    using loop_pooledBelow5 [of "fst st" "snd st" probe now] by simp
  from Cons.IH [OF this] round show ?case
    by simp
qed

lemma watchInit_pooledBelow5: "distinct (Servers cfg) \<Longrightarrow> pooledBelow5 (watchInit cfg)"
  by (simp add: pooledBelow5_def watchInit_def comp_def)

lemma demoted_at_five:
  assumes "server up \<in> pool \<longrightarrow> 0 \<le> failed up \<and> failed up < 5"
    and "checkUpstream probe now up pool = (up', pool')"
    and "server up \<in> pool" and "server up \<notin> pool'"
  shows "failed up' = 5 \<and> \<not> IsDead up'"
  using assms by (auto simp: checkUpstream_def Let_def IsDead_def split: if_splits)

text \<open>
  An upstream with more than 20 failures is never probed again: no round of \<open>watch\<close>
  changes it or the place of its address in the pool, whatever the server would answer.
\<close>
lemma loop_dead_nth:
  assumes d: "distinct (map server ups)" and i: "i < length ups" and dead: "IsDead (ups ! i)"
  shows "fst (loop probe now ups pool) ! i = ups ! i \<and>
         (server (ups ! i) \<in> snd (loop probe now ups pool) \<longleftrightarrow> server (ups ! i) \<in> pool)"
proof -
  from loop_nth [OF d i, of probe now pool] obtain pool0
    where own: "fst (loop probe now ups pool) ! i = fst (checkUpstream probe now (ups ! i) pool0)"
      and before: "server (ups ! i) \<in> pool0 \<longleftrightarrow> server (ups ! i) \<in> pool"
      and after: "server (ups ! i) \<in> snd (loop probe now ups pool) \<longleftrightarrow>
                  server (ups ! i) \<in> snd (checkUpstream probe now (ups ! i) pool0)"
    by blast
  from dead have "checkUpstream probe now (ups ! i) pool0 = (ups ! i, pool0)"
    by (rule dead_upstream_is_skipped)
  with own before after show ?thesis
    by simp
qed

lemma watch_dead_nth:
  assumes "distinct (map server (fst st))" and "i < length (fst st)" and "IsDead (fst st ! i)"
  shows "fst (watch rounds st) ! i = fst st ! i \<and>
         (server (fst st ! i) \<in> snd (watch rounds st) \<longleftrightarrow> server (fst st ! i) \<in> snd st)"
  using assms
proof (induction rounds arbitrary: st)
  case Nil
  then show ?case by simp
next
  case (Cons round rounds)
  obtain probe now where round: "round = (probe, now)"
    by (cases round)
  let ?st' = "loop probe now (fst st) (snd st)"
  have step: "fst ?st' ! i = fst st ! i \<and>
      (server (fst st ! i) \<in> snd ?st' \<longleftrightarrow> server (fst st ! i) \<in> snd st)"
    using Cons.prems by (rule loop_dead_nth)
  have servers: "map server (fst ?st') = map server (fst st)"
    by (rule loop_servers)
  then have "length (fst ?st') = length (fst st)"
    by (metis length_map)
  with Cons.prems servers step
  have "distinct (map server (fst ?st'))" and "i < length (fst ?st')" and "IsDead (fst ?st' ! i)"
    by simp_all
  from Cons.IH [OF this] step round show ?case
    by simp
qed

section \<open>The zone matcher\<close>

text \<open>
  C3, amended: for a record whose name contains \<open>*\<close>, a query name is a name match
  exactly when it equals the record's fully qualified name or contains, at any position,
  the string \<open>rName.domain.\<close>, where \<open>rName\<close> is the second piece of the record name
  split at \<open>*\<close>. Every query name that ends in that string is a name match. When the
  record name holds a single \<open>*\<close>, the name match is exactly the containment, and a query
  name that does not contain the string is never answered with that record.
\<close>
theorem wildcard_name_match:
  assumes "Contains (Record_Name r) ''*''"
  shows "(nameMatch d r (Question_Name q) \<longleftrightarrow>
            Question_Name q = fqName d r \<or> Contains (Question_Name q) (wildSuffix d r)) \<and>
         (suffix (wildSuffix d r) (Question_Name q) \<longrightarrow> nameMatch d r (Question_Name q)) \<and>
         (count_list (Record_Name r) (CHR ''*'') = 1 \<longrightarrow>
            (nameMatch d r (Question_Name q) \<longleftrightarrow> Contains (Question_Name q) (wildSuffix d r)) \<and>
            (\<not> Contains (Question_Name q) (wildSuffix d r) \<longrightarrow> matchRecords d rs q \<noteq> Some r))"
proof (intro conjI impI)
  show general: "nameMatch d r (Question_Name q) \<longleftrightarrow>
      Question_Name q = fqName d r \<or> Contains (Question_Name q) (wildSuffix d r)"
    using assms by (auto simp: nameMatch_def)
  show "nameMatch d r (Question_Name q)" if "suffix (wildSuffix d r) (Question_Name q)"
    using general suffix_Contains [OF that] by simp
  show single: "nameMatch d r (Question_Name q) \<longleftrightarrow> Contains (Question_Name q) (wildSuffix d r)"
    if "count_list (Record_Name r) (CHR ''*'') = 1"
    using general suffix_Contains [OF wildSuffix_single [OF that, of d]] by auto
  show "matchRecords d rs q \<noteq> Some r"
    if one: "count_list (Record_Name r) (CHR ''*'') = 1"
      and no: "\<not> Contains (Question_Name q) (wildSuffix d r)"
  proof
    assume "matchRecords d rs q = Some r"
    then have "hit d r q"
      by (simp add: matchRecords_Some)
    then have "nameMatch d r (Question_Name q)"
      by (simp add: hit_def)
    with single [OF one] no show False
      by simp
  qed
qed

text \<open>The record \<open>*\<close> of \<open>example.com\<close> matches \<open>foo\<close> and \<open>bar\<close>, and not a name of \<open>example.org\<close>.\<close>
theorem wildcard_name_match_witness:
  "nameMatch (exampleZone [starRecord]) starRecord ''foo.example.com.'' \<and>
   nameMatch (exampleZone [starRecord]) starRecord ''bar.example.com.'' \<and>
   matchRecords (exampleZone [starRecord]) [starRecord] (ask ''foo.example.org.'' TypeA) \<noteq> Some starRecord"
proof -
  have star: "Contains (Record_Name starRecord) ''*''"
    by (simp add: starRecord_def)
  have one: "count_list (Record_Name starRecord) (CHR ''*'') = 1"
    by (simp add: starRecord_def)
  have sfx: "wildSuffix (exampleZone [starRecord]) starRecord = ''.example.com.''"
    by (simp add: wildSuffix_def starRecord_def exampleZone_def)
  have foo: "Contains (Question_Name (ask ''foo.example.com.'' TypeA)) (wildSuffix (exampleZone [starRecord]) starRecord)"
    unfolding sfx by (simp add: ask_def)
  have bar: "Contains (Question_Name (ask ''bar.example.com.'' TypeA)) (wildSuffix (exampleZone [starRecord]) starRecord)"
    unfolding sfx by (simp add: ask_def)
  have org: "\<not> Contains (Question_Name (ask ''foo.example.org.'' TypeA)) (wildSuffix (exampleZone [starRecord]) starRecord)"
    unfolding sfx by (simp add: ask_def)
  from wildcard_name_match [OF star, of "exampleZone [starRecord]" "ask ''foo.example.com.'' TypeA"] one foo
  have "nameMatch (exampleZone [starRecord]) starRecord (Question_Name (ask ''foo.example.com.'' TypeA))"
    by blast
  moreover
  from wildcard_name_match [OF star, of "exampleZone [starRecord]" "ask ''bar.example.com.'' TypeA"] one bar
  have "nameMatch (exampleZone [starRecord]) starRecord (Question_Name (ask ''bar.example.com.'' TypeA))"
    by blast
  moreover
  from wildcard_name_match [OF star, of "exampleZone [starRecord]" "ask ''foo.example.org.'' TypeA" "[starRecord]"] one org
  have "matchRecords (exampleZone [starRecord]) [starRecord] (ask ''foo.example.org.'' TypeA) \<noteq> Some starRecord"
    by blast
  ultimately show ?thesis
    by (simp add: ask_def)
qed

text \<open>
  C3 as stated fails: \<open>a.example.com.b.\<close> is matched by the record \<open>*\<close> of
  \<open>example.com\<close> although it does not end in \<open>.example.com.\<close>; and the record
  \<open>a*b*c\<close> matches its own fully qualified name, which does not contain
  \<open>b.example.com.\<close> at all.
\<close>
theorem wildcard_name_match_counterexample:
  "match (exampleConfig [starRecord]) (ask ''a.example.com.b.'' TypeA) = Some starRecord \<and>
   wildSuffix (exampleZone [starRecord]) starRecord = ''.example.com.'' \<and>
   \<not> suffix ''.example.com.'' ''a.example.com.b.'' \<and>
   nameMatch (exampleZone [twoStarRecord]) twoStarRecord ''a*b*c.example.com.'' \<and>
   wildSuffix (exampleZone [twoStarRecord]) twoStarRecord = ''b.example.com.'' \<and>
   \<not> Contains ''a*b*c.example.com.'' ''b.example.com.''"
  by (simp add: match_defs starRecord_def twoStarRecord_def exampleZone_def exampleConfig_def ask_def suffix_def)

text \<open>
  C4, amended: for a query type of the table (A, AAAA, TXT, CNAME, MX, HTTPS), a CNAME
  record that is a name match, in a domain whose name the query name contains, is
  returned by \<open>match\<close> whatever the requested type is, provided that no earlier record in
  iteration order is a name match of the requested type or of type CNAME.
\<close>
theorem cname_fallback:
  assumes supported: "Question_Qtype q \<in> {TypeA, TypeAAAA, TypeTXT, TypeCNAME, TypeMX, TypeHTTPS}"
    and doms: "Domains cfg = ds1 @ d # ds2"
    and recs: "Domain_Records d = rs1 @ r # rs2"
    and dom: "Contains (Question_Name q) (Domain_Name d)"
    and cname: "Record_Type r = ''CNAME''"
    and name: "nameMatch d r (Question_Name q)"
    and earlier_domains:
      "\<forall>d' \<in> set ds1. \<forall>r' \<in> set (Domain_Records d').
         Contains (Question_Name q) (Domain_Name d') \<and> nameMatch d' r' (Question_Name q) \<longrightarrow>
         typeMap (Record_Type r') \<noteq> Some (Question_Qtype q) \<and> Record_Type r' \<noteq> ''CNAME''"
    and earlier_records:
      "\<forall>r' \<in> set rs1. nameMatch d r' (Question_Name q) \<longrightarrow>
         typeMap (Record_Type r') \<noteq> Some (Question_Qtype q) \<and> Record_Type r' \<noteq> ''CNAME''"
  shows "match cfg q = Some r"
proof (rule match_first [OF doms recs])
  show "candidate d q"
    unfolding candidate_def using dom supported typeMapRev_Some [of "Question_Qtype q"] by blast
  show "hit d r q"
    using name cname typeMap_CNAME [of "Record_Type r"] by (simp add: hit_def isSame_CNAME)
  show "\<forall>r' \<in> set rs1. \<not> hit d r' q"
    using earlier_records
    by (auto simp: hit_def isSame_CNAME typeMap_CNAME split: option.splits)
  show "\<forall>d' \<in> set ds1. candidate d' q \<longrightarrow> (\<forall>r' \<in> set (Domain_Records d'). \<not> hit d' r' q)"
    using earlier_domains
    by (auto simp: hit_def candidate_def isSame_CNAME typeMap_CNAME split: option.splits)
qed

text \<open>An MX query for \<open>mail.example.com.\<close> falls back to the CNAME record behind \<open>www\<close>.\<close>
theorem cname_fallback_witness:
  "match (exampleConfig [wwwRecord, aliasRecord]) (ask ''mail.example.com.'' TypeMX) = Some aliasRecord"
proof (rule cname_fallback [where ?ds1.0 = "[]" and d = "exampleZone [wwwRecord, aliasRecord]"
      and ?ds2.0 = "[]" and ?rs1.0 = "[wwwRecord]" and ?rs2.0 = "[]"])
  show "Question_Qtype (ask ''mail.example.com.'' TypeMX) \<in> {TypeA, TypeAAAA, TypeTXT, TypeCNAME, TypeMX, TypeHTTPS}"
    by (simp add: ask_def)
  show "Domains (exampleConfig [wwwRecord, aliasRecord]) = [] @ exampleZone [wwwRecord, aliasRecord] # []"
    by (simp add: exampleConfig_def)
  show "Domain_Records (exampleZone [wwwRecord, aliasRecord]) = [wwwRecord] @ aliasRecord # []"
    by (simp add: exampleZone_def)
  show "Contains (Question_Name (ask ''mail.example.com.'' TypeMX)) (Domain_Name (exampleZone [wwwRecord, aliasRecord]))"
    by (simp add: ask_def exampleZone_def)
  show "Record_Type aliasRecord = ''CNAME''"
    by (simp add: aliasRecord_def)
  show "nameMatch (exampleZone [wwwRecord, aliasRecord]) aliasRecord (Question_Name (ask ''mail.example.com.'' TypeMX))"
    by (simp add: nameMatch_def fqName_def wildSuffix_def ask_def exampleZone_def aliasRecord_def)
  show "\<forall>d' \<in> set []. \<forall>r' \<in> set (Domain_Records d').
         Contains (Question_Name (ask ''mail.example.com.'' TypeMX)) (Domain_Name d') \<and>
         nameMatch d' r' (Question_Name (ask ''mail.example.com.'' TypeMX)) \<longrightarrow>
         typeMap (Record_Type r') \<noteq> Some (Question_Qtype (ask ''mail.example.com.'' TypeMX)) \<and>
         Record_Type r' \<noteq> ''CNAME''"
    by simp
  show "\<forall>r' \<in> set [wwwRecord].
         nameMatch (exampleZone [wwwRecord, aliasRecord]) r' (Question_Name (ask ''mail.example.com.'' TypeMX)) \<longrightarrow>
         typeMap (Record_Type r') \<noteq> Some (Question_Qtype (ask ''mail.example.com.'' TypeMX)) \<and>
         Record_Type r' \<noteq> ''CNAME''"
    by (simp add: nameMatch_def fqName_def ask_def exampleZone_def wwwRecord_def)
qed

text \<open>
  C4 as stated fails: the CNAME record \<open>*\<close> answers \<open>www.example.com.\<close> for MX, and
  for the query type 2 (NS), which is not in the table, \<open>match\<close> finds nothing. An
  earlier CNAME name match is returned in place of a later one.
\<close>
theorem cname_fallback_counterexample:
  "Record_Type aliasRecord = ''CNAME'' \<and>
   nameMatch (exampleZone [aliasRecord]) aliasRecord ''www.example.com.'' \<and>
   match (exampleConfig [aliasRecord]) (ask ''www.example.com.'' TypeMX) = Some aliasRecord \<and>
   match (exampleConfig [aliasRecord]) (ask ''www.example.com.'' 2) = None \<and>
   nameMatch (exampleZone [aliasRecord, wwwAliasRecord]) wwwAliasRecord ''www.example.com.'' \<and>
   match (exampleConfig [aliasRecord, wwwAliasRecord]) (ask ''www.example.com.'' TypeA) = Some aliasRecord \<and>
   aliasRecord \<noteq> wwwAliasRecord"
  by (simp add: match_defs aliasRecord_def wwwAliasRecord_def exampleZone_def exampleConfig_def ask_def)

section \<open>The answer synthesizer\<close>

text \<open>
  C5, amended: for a configured record of type A, AAAA, MX or CNAME that is the first
  record in iteration order to be returned for its own fully qualified name and type,
  the local answer to that query is exactly one record: header name the query name,
  the record's type, class IN, the configured TTL, and the data of the record (the
  parsed address, the preference and exchange, or the target with one trailing dot).
  The revision with the pool returns that record as the answer of the question.
\<close>
theorem exact_record_answer:
  assumes qtype: "Question_Qtype q \<in> {TypeA, TypeAAAA, TypeMX, TypeCNAME}"
    and doms: "Domains cfg = ds1 @ d # ds2"
    and recs: "Domain_Records d = rs1 @ r # rs2"
    and name: "Question_Name q = fqName d r"
    and type: "typeMap (Record_Type r) = Some (Question_Qtype q)"
    and earlier_domains:
      "\<forall>d' \<in> set ds1. \<forall>r' \<in> set (Domain_Records d').
         Contains (Question_Name q) (Domain_Name d') \<and> nameMatch d' r' (Question_Name q) \<longrightarrow>
         typeMap (Record_Type r') \<noteq> Some (Question_Qtype q) \<and> Record_Type r' \<noteq> ''CNAME''"
    and earlier_records:
      "\<forall>r' \<in> set rs1. nameMatch d r' (Question_Name q) \<longrightarrow>
         typeMap (Record_Type r') \<noteq> Some (Question_Qtype q) \<and> Record_Type r' \<noteq> ''CNAME''"
  shows "match cfg q = Some r \<and>
         (\<exists>rd. localRR env q r =
                  Some (RR \<lparr>Hdr_Name = Question_Name q, Hdr_Rrtype = Question_Qtype q,
                             Hdr_Class = ClassINET, Hdr_Ttl = Record_TTL r\<rparr> rd) \<and>
                rd = (if Question_Qtype q = TypeA then A (ParseIP env (Record_Value r))
                      else if Question_Qtype q = TypeAAAA then AAAA (ParseIP env (Record_Value r))
                      else if Question_Qtype q = TypeMX then MX (Record_Preference r) (Record_Value r)
                      else CNAME (TrimSuffix (Record_Value r) ''.'' @ ''.'')) \<and>
                handleLocal env cfg q answer =
                  (answer @ [RR \<lparr>Hdr_Name = Question_Name q, Hdr_Rrtype = Question_Qtype q,
                                   Hdr_Class = ClassINET, Hdr_Ttl = Record_TTL r\<rparr> rd], False) \<and>
                handleLocal2 env cfg q =
                  ([RR \<lparr>Hdr_Name = Question_Name q, Hdr_Rrtype = Question_Qtype q,
                         Hdr_Class = ClassINET, Hdr_Ttl = Record_TTL r\<rparr> rd], True))"
proof -
  have m: "match cfg q = Some r"
  proof (rule match_first [OF doms recs])
    show "candidate d q"
      unfolding candidate_def name
      using qtype typeMapRev_Some [of "Question_Qtype q"] fqName_Contains_domain [of d r] by blast
    show "hit d r q"
      using name type by (simp add: hit_def nameMatch_def)
    show "\<forall>r' \<in> set rs1. \<not> hit d r' q"
      using earlier_records
      by (auto simp: hit_def isSame_CNAME typeMap_CNAME split: option.splits)
    show "\<forall>d' \<in> set ds1. candidate d' q \<longrightarrow> (\<forall>r' \<in> set (Domain_Records d'). \<not> hit d' r' q)"
      using earlier_domains
      by (auto simp: hit_def candidate_def isSame_CNAME typeMap_CNAME split: option.splits)
  qed
  have t: "typeOf r = Question_Qtype q"
    using type by (rule typeOf_Some)
  from qtype consider "Question_Qtype q = TypeA" | "Question_Qtype q = TypeAAAA"
    | "Question_Qtype q = TypeMX" | "Question_Qtype q = TypeCNAME"
    by auto
  then show ?thesis
  proof cases
    case 1
    then show ?thesis
      using m t by (simp add: localRR_def handleLocal_def handleLocal2_def)
  next
    case 2
    then show ?thesis
      using m t by (simp add: localRR_def handleLocal_def handleLocal2_def dns_consts)
  next
    case 3
    then show ?thesis
      using m t by (simp add: localRR_def handleLocal_def handleLocal2_def dns_consts)
  next
    case 4
    then show ?thesis
      using m t by (simp add: localRR_def handleLocal_def handleLocal2_def dns_consts)
  qed
qed

text \<open>The scenario of the specification: \<open>www.example.com. A\<close> gives one A record, 1.2.3.4, TTL 300.\<close>
theorem exact_record_answer_witness:
  "handleLocal2 (exampleEnv allAnswer) (exampleConfig [wwwRecord]) (ask ''www.example.com.'' TypeA) =
     ([RR \<lparr>Hdr_Name = ''www.example.com.'', Hdr_Rrtype = TypeA, Hdr_Class = ClassINET, Hdr_Ttl = 300\<rparr>
          (A [0, 0, 0, 0, 0, 0, 0, 0, 0, 0, 255, 255, 1, 2, 3, 4])], True)"
proof -
  have qtype: "Question_Qtype (ask ''www.example.com.'' TypeA) \<in> {TypeA, TypeAAAA, TypeMX, TypeCNAME}"
    by (simp add: ask_def)
  have doms: "Domains (exampleConfig [wwwRecord]) = [] @ exampleZone [wwwRecord] # []"
    by (simp add: exampleConfig_def)
  have recs: "Domain_Records (exampleZone [wwwRecord]) = [] @ wwwRecord # []"
    by (simp add: exampleZone_def)
  have name: "Question_Name (ask ''www.example.com.'' TypeA) = fqName (exampleZone [wwwRecord]) wwwRecord"
    by (simp add: ask_def fqName_def exampleZone_def wwwRecord_def)
  have type: "typeMap (Record_Type wwwRecord) = Some (Question_Qtype (ask ''www.example.com.'' TypeA))"
    by (simp add: ask_def typeMap_def typeMapList_def wwwRecord_def)
  have e1: "\<forall>d' \<in> set []. \<forall>r' \<in> set (Domain_Records d').
         Contains (Question_Name (ask ''www.example.com.'' TypeA)) (Domain_Name d') \<and>
         nameMatch d' r' (Question_Name (ask ''www.example.com.'' TypeA)) \<longrightarrow>
         typeMap (Record_Type r') \<noteq> Some (Question_Qtype (ask ''www.example.com.'' TypeA)) \<and>
         Record_Type r' \<noteq> ''CNAME''"
    by simp
  have e2: "\<forall>r' \<in> set []. nameMatch (exampleZone [wwwRecord]) r' (Question_Name (ask ''www.example.com.'' TypeA)) \<longrightarrow>
         typeMap (Record_Type r') \<noteq> Some (Question_Qtype (ask ''www.example.com.'' TypeA)) \<and>
         Record_Type r' \<noteq> ''CNAME''"
    by simp
  from exact_record_answer [OF qtype doms recs name type e1 e2, of "exampleEnv allAnswer" "[]"]
  show ?thesis
    by (auto simp: ask_def wwwRecord_def exampleEnv_def exampleParseIP_def)
qed

text \<open>
  C5 as stated fails: a TXT record is matched and no record is synthesized for it; an
  HTTPS record is answered with the name \<open>.\<close> and TTL 0 instead of the configured 300;
  and an earlier wildcard CNAME is returned in place of the exact A record.
\<close>
theorem exact_record_answer_counterexample:
  "match (exampleConfig [txtRecord]) (ask ''note.example.com.'' TypeTXT) = Some txtRecord \<and>
   handleLocal (exampleEnv allAnswer) (exampleConfig [txtRecord]) (ask ''note.example.com.'' TypeTXT) [] = ([], False) \<and>
   handleLocal2 (exampleEnv allAnswer) (exampleConfig [txtRecord]) (ask ''note.example.com.'' TypeTXT) = ([], False) \<and>
   match (exampleConfig [httpsRecord]) (ask ''web.example.com.'' TypeHTTPS) = Some httpsRecord \<and>
   Record_TTL httpsRecord = 300 \<and>
   handleLocal2 (exampleEnv allAnswer) (exampleConfig [httpsRecord]) (ask ''web.example.com.'' TypeHTTPS) =
     ([RR \<lparr>Hdr_Name = ''.'', Hdr_Rrtype = TypeHTTPS, Hdr_Class = ClassINET, Hdr_Ttl = 0\<rparr>
          (HTTPS 0 [] [[''h2'', ''http/1.1'']])], True) \<and>
   match (exampleConfig [aliasRecord, wwwRecord]) (ask ''www.example.com.'' TypeA) = Some aliasRecord"
proof -
  have m_txt: "match (exampleConfig [txtRecord]) (ask ''note.example.com.'' TypeTXT) = Some txtRecord"
    by (simp add: match_defs txtRecord_def exampleZone_def exampleConfig_def ask_def)
  have m_https: "match (exampleConfig [httpsRecord]) (ask ''web.example.com.'' TypeHTTPS) = Some httpsRecord"
    by (simp add: match_defs httpsRecord_def exampleZone_def exampleConfig_def ask_def)
  have m_shadow: "match (exampleConfig [aliasRecord, wwwRecord]) (ask ''www.example.com.'' TypeA) = Some aliasRecord"
    by (simp add: match_defs aliasRecord_def wwwRecord_def exampleZone_def exampleConfig_def ask_def)
  have "handleLocal (exampleEnv allAnswer) (exampleConfig [txtRecord]) (ask ''note.example.com.'' TypeTXT) [] = ([], False)"
    using m_txt
    by (simp add: handleLocal_def localRR_def typeOf_def typeMap_def typeMapList_def dns_consts txtRecord_def)
  moreover
  have "handleLocal2 (exampleEnv allAnswer) (exampleConfig [txtRecord]) (ask ''note.example.com.'' TypeTXT) = ([], False)"
    using m_txt
    by (simp add: handleLocal2_def localRR_def typeOf_def typeMap_def typeMapList_def dns_consts txtRecord_def)
  moreover
  have "handleLocal2 (exampleEnv allAnswer) (exampleConfig [httpsRecord]) (ask ''web.example.com.'' TypeHTTPS) =
     ([RR \<lparr>Hdr_Name = ''.'', Hdr_Rrtype = TypeHTTPS, Hdr_Class = ClassINET, Hdr_Ttl = 0\<rparr>
          (HTTPS 0 [] [[''h2'', ''http/1.1'']])], True)"
    using m_https
    by (simp add: handleLocal2_def localRR_def typeOf_def typeMap_def typeMapList_def dns_consts httpsRecord_def)
  moreover have "Record_TTL httpsRecord = 300"
    by (simp add: httpsRecord_def)
  ultimately show ?thesis
    using m_txt m_https m_shadow by simp
qed

text \<open>
  C9, amended: for a matched A or AAAA record whose value \<open>net.ParseIP\<close> rejects,
  synthesis does not fail: the local answer is one address record with header name the
  query name, the record's TTL and a \<open>nil\<close> address.
\<close>
theorem unparsable_address_is_answered:
  assumes m: "match cfg q = Some r"
    and t: "typeOf r = TypeA \<or> typeOf r = TypeAAAA"
    and bad: "ParseIP env (Record_Value r) = []"
  shows "handleLocal env cfg q answer =
           (answer @ [RR \<lparr>Hdr_Name = Question_Name q, Hdr_Rrtype = typeOf r,
                            Hdr_Class = ClassINET, Hdr_Ttl = Record_TTL r\<rparr>
                         (if typeOf r = TypeA then A [] else AAAA [])], False) \<and>
         handleLocal2 env cfg q =
           ([RR \<lparr>Hdr_Name = Question_Name q, Hdr_Rrtype = typeOf r,
                  Hdr_Class = ClassINET, Hdr_Ttl = Record_TTL r\<rparr>
               (if typeOf r = TypeA then A [] else AAAA [])], True)"
  using t
proof
  assume "typeOf r = TypeA"
  then show ?thesis
    using m bad by (simp add: localRR_def handleLocal_def handleLocal2_def)
next
  assume "typeOf r = TypeAAAA"
  then show ?thesis
    using m bad by (simp add: localRR_def handleLocal_def handleLocal2_def dns_consts)
qed

text \<open>The same record in the revision with the pool.\<close>
theorem unparsable_address_is_answered_witness:
  "handleLocal2 (exampleEnv allAnswer) (exampleConfig [badRecord]) (ask ''bad.example.com.'' TypeA) =
     ([RR \<lparr>Hdr_Name = ''bad.example.com.'', Hdr_Rrtype = TypeA, Hdr_Class = ClassINET, Hdr_Ttl = 30\<rparr> (A [])],
      True)"
proof -
  have m: "match (exampleConfig [badRecord]) (ask ''bad.example.com.'' TypeA) = Some badRecord"
    by (simp add: match_defs badRecord_def exampleZone_def exampleConfig_def ask_def)
  have t: "typeOf badRecord = TypeA \<or> typeOf badRecord = TypeAAAA"
    by (simp add: typeOf_def typeMap_def typeMapList_def badRecord_def)
  have bad: "ParseIP (exampleEnv allAnswer) (Record_Value badRecord) = []"
    by (simp add: exampleEnv_def exampleParseIP_def badRecord_def)
  from unparsable_address_is_answered [OF m t bad, of "[]", THEN conjunct2]
  show ?thesis
    by (simp add: typeOf_def typeMap_def typeMapList_def badRecord_def ask_def)
qed

text \<open>
  C9 as stated fails: the record \<open>bad A not-an-ip\<close> is answered with one A record
  whose address is \<open>nil\<close>, not with an empty answer.
\<close>
theorem unparsable_address_counterexample:
  "match (exampleConfig [badRecord]) (ask ''bad.example.com.'' TypeA) = Some badRecord \<and>
   ParseIP (exampleEnv allAnswer) (Record_Value badRecord) = [] \<and>
   handleLocal (exampleEnv allAnswer) (exampleConfig [badRecord]) (ask ''bad.example.com.'' TypeA) [] =
     ([RR \<lparr>Hdr_Name = ''bad.example.com.'', Hdr_Rrtype = TypeA, Hdr_Class = ClassINET, Hdr_Ttl = 30\<rparr> (A [])],
      False) \<and>
   fst (ServeDNS2 (exampleEnv allAnswer) (exampleConfig [badRecord]) [''8.8.8.8:53''] Map.empty
          [ask ''bad.example.com.'' TypeA]) =
     [RR \<lparr>Hdr_Name = ''bad.example.com.'', Hdr_Rrtype = TypeA, Hdr_Class = ClassINET, Hdr_Ttl = 30\<rparr> (A [])]"
proof -
  have m: "match (exampleConfig [badRecord]) (ask ''bad.example.com.'' TypeA) = Some badRecord"
    by (simp add: match_defs badRecord_def exampleZone_def exampleConfig_def ask_def)
  have "handleLocal (exampleEnv allAnswer) (exampleConfig [badRecord]) (ask ''bad.example.com.'' TypeA) [] =
     ([RR \<lparr>Hdr_Name = ''bad.example.com.'', Hdr_Rrtype = TypeA, Hdr_Class = ClassINET, Hdr_Ttl = 30\<rparr> (A [])],
      False)"
    using m
    by (simp add: handleLocal_def localRR_def typeOf_def typeMap_def typeMapList_def dns_consts
        badRecord_def ask_def exampleEnv_def exampleParseIP_def)
  moreover
  have "fst (ServeDNS2 (exampleEnv allAnswer) (exampleConfig [badRecord]) [''8.8.8.8:53''] Map.empty
          [ask ''bad.example.com.'' TypeA]) =
     [RR \<lparr>Hdr_Name = ''bad.example.com.'', Hdr_Rrtype = TypeA, Hdr_Class = ClassINET, Hdr_Ttl = 30\<rparr> (A [])]"
    using m
    by (simp add: ServeDNS2_def serveQuestion2_def handleLocal2_def localRR_def typeOf_def Let_def
        typeMap_def typeMapList_def dns_consts badRecord_def ask_def exampleEnv_def exampleParseIP_def)
  moreover have "ParseIP (exampleEnv allAnswer) (Record_Value badRecord) = []"
    by (simp add: exampleEnv_def exampleParseIP_def badRecord_def)
  ultimately show ?thesis
    using m by simp
qed

section \<open>Local answers and forwarding\<close>

text \<open>
  C1: for a question that the zone matcher matches, the answers of the reply are the
  synthesized record alone and the forwarder is not asked. On handler.go this fails:
  \<open>handleLocal\<close> never returns \<open>true\<close>, so \<open>ServeDNS\<close> goes on to \<open>resolve\<close>
  and appends what the upstream returns. For the zone \<open>example.com\<close> with
  \<open>www A 1.2.3.4\<close> and an upstream that answers, the reply to \<open>www.example.com. A\<close>
  holds the local record followed by the upstream's record; the revision with the pool
  answers the same question with the local record alone.
\<close>
theorem local_match_is_forwarded_too:
  "match (exampleConfig [wwwRecord]) (ask ''www.example.com.'' TypeA) = Some wwwRecord \<and>
   fst (ServeDNS (exampleEnv allAnswer) (exampleConfig [wwwRecord]) Map.empty
          [ask ''www.example.com.'' TypeA]) =
     [RR \<lparr>Hdr_Name = ''www.example.com.'', Hdr_Rrtype = TypeA, Hdr_Class = ClassINET, Hdr_Ttl = 300\<rparr>
         (A [0, 0, 0, 0, 0, 0, 0, 0, 0, 0, 255, 255, 1, 2, 3, 4]),
      upstreamRR ''www.example.com.'' 30] \<and>
   fst (ServeDNS2 (exampleEnv allAnswer) (exampleConfig [wwwRecord]) [''8.8.8.8:53''] Map.empty
          [ask ''www.example.com.'' TypeA]) =
     [RR \<lparr>Hdr_Name = ''www.example.com.'', Hdr_Rrtype = TypeA, Hdr_Class = ClassINET, Hdr_Ttl = 300\<rparr>
         (A [0, 0, 0, 0, 0, 0, 0, 0, 0, 0, 255, 255, 1, 2, 3, 4])]"
proof (intro conjI)
  show m: "match (exampleConfig [wwwRecord]) (ask ''www.example.com.'' TypeA) = Some wwwRecord"
    by (rule match_www)
  have key: "Map.empty (cacheKey ''www.example.com.'' TypeA) = (None :: cacheItem option)"
    by simp
  show "fst (ServeDNS (exampleEnv allAnswer) (exampleConfig [wwwRecord]) Map.empty
          [ask ''www.example.com.'' TypeA]) =
     [RR \<lparr>Hdr_Name = ''www.example.com.'', Hdr_Rrtype = TypeA, Hdr_Class = ClassINET, Hdr_Ttl = 300\<rparr>
         (A [0, 0, 0, 0, 0, 0, 0, 0, 0, 0, 255, 255, 1, 2, 3, 4]),
      upstreamRR ''www.example.com.'' 30]"
    using m
    by (simp add: ServeDNS_def serveQuestion_def handleLocal_def localRR_def typeOf_def
        resolve_def typeMap_def typeMapList_def dns_consts wwwRecord_def exampleConfig_def ask_def
        exampleParseIP_def exampleEnv_def upstreamRR_def allAnswer_def)
  show "fst (ServeDNS2 (exampleEnv allAnswer) (exampleConfig [wwwRecord]) [''8.8.8.8:53''] Map.empty
          [ask ''www.example.com.'' TypeA]) =
     [RR \<lparr>Hdr_Name = ''www.example.com.'', Hdr_Rrtype = TypeA, Hdr_Class = ClassINET, Hdr_Ttl = 300\<rparr>
         (A [0, 0, 0, 0, 0, 0, 0, 0, 0, 0, 255, 255, 1, 2, 3, 4])]"
    using m
    by (simp add: ServeDNS2_def serveQuestion2_def handleLocal2_def localRR_def typeOf_def Let_def
        typeMap_def typeMapList_def dns_consts wwwRecord_def exampleConfig_def ask_def
        exampleParseIP_def exampleEnv_def)
qed

section \<open>The forwarder\<close>

text \<open>
  C2, amended: on a cache miss the forwarder asks the configured servers in the order
  of the configuration and returns the answer section of the first server whose exchange
  ends without an error, empty or not; only an error makes it go on to the next server.
  If the first \<open>k\<close> servers fail with an error and the next one answers, that answer is
  returned, and it is stored in the cache when it is not empty (an empty one leaves the
  cache as it was). \<open>resolve\<close> of the revision with the pool returns the same answer
  when \<open>Range\<close> visits the pool in that order.
\<close>
theorem forwarder_first_without_error:
  assumes miss: "c (cacheKey domain qtype) = None"
    and servers: "Servers cfg = failedServers @ s # rest"
    and failures: "\<forall>x \<in> set failedServers. \<exists>e. Exchange env domain qtype x = Inl e"
    and success: "Exchange env domain qtype s = Inr answer"
  shows "resolve env cfg c domain qtype =
           (answer, saveCache (Now env) (cacheKey domain qtype) answer c) \<and>
         (answer \<noteq> [] \<longrightarrow>
            (\<exists>v. saveCache (Now env) (cacheKey domain qtype) answer c (cacheKey domain qtype) = Some v \<and>
                 item_value v = answer)) \<and>
         (answer = [] \<longrightarrow> saveCache (Now env) (cacheKey domain qtype) answer c = c) \<and>
         resolve2 env domain qtype (failedServers @ s # rest) = answer"
proof (intro conjI impI)
  have "exchangeLoop env domain qtype c (Servers cfg) = exchangeLoop env domain qtype c (s # rest)"
    unfolding servers using failures by (rule exchangeLoop_skip)
  then show "resolve env cfg c domain qtype =
      (answer, saveCache (Now env) (cacheKey domain qtype) answer c)"
    using miss success by (simp add: resolve_def)
  show "\<exists>v. saveCache (Now env) (cacheKey domain qtype) answer c (cacheKey domain qtype) = Some v \<and>
      item_value v = answer" if "answer \<noteq> []"
    using that by (cases answer) (simp_all add: saveCache_lookup)
  show "saveCache (Now env) (cacheKey domain qtype) answer c = c" if "answer = []"
    using that by (simp add: saveCache_Nil)
  have "resolve2 env domain qtype (failedServers @ s # rest) = resolve2 env domain qtype (s # rest)"
    using failures by (rule resolve2_skip)
  then show "resolve2 env domain qtype (failedServers @ s # rest) = answer"
    using success by simp
qed

text \<open>The first server times out, the second answers with two records.\<close>
theorem forwarder_first_without_error_witness:
  "resolve (exampleEnv firstFails) (exampleConfig []) Map.empty ''example.org.'' TypeA =
     ([upstreamRR ''example.org.'' 30, upstreamRR ''example.org.'' 10],
      saveCache 1000 (cacheKey ''example.org.'' TypeA)
        [upstreamRR ''example.org.'' 30, upstreamRR ''example.org.'' 10] Map.empty)"
proof -
  have miss: "Map.empty (cacheKey ''example.org.'' TypeA) = (None :: cacheItem option)"
    by simp
  have servers: "Servers (exampleConfig []) = [''8.8.8.8:53''] @ ''1.1.1.1:53'' # []"
    by (simp add: exampleConfig_def)
  have failures: "\<forall>x \<in> set [''8.8.8.8:53'']. \<exists>e. Exchange (exampleEnv firstFails) ''example.org.'' TypeA x = Inl e"
    by (simp add: exampleEnv_def firstFails_def)
  have success: "Exchange (exampleEnv firstFails) ''example.org.'' TypeA ''1.1.1.1:53'' =
      Inr [upstreamRR ''example.org.'' 30, upstreamRR ''example.org.'' 10]"
    by (simp add: exampleEnv_def firstFails_def)
  from forwarder_first_without_error [OF miss servers failures success, THEN conjunct1]
  show ?thesis
    by (simp add: exampleEnv_def)
qed

text \<open>
  C2 as stated fails: the first server returns an empty answer section without an error,
  the second one would answer, and \<open>resolve\<close> returns the empty answer of the first.
\<close>
theorem empty_answer_ends_walk_counterexample:
  "resolve (exampleEnv firstEmpty) (exampleConfig []) Map.empty ''example.org.'' TypeA = ([], Map.empty) \<and>
   Servers (exampleConfig []) = [''8.8.8.8:53'', ''1.1.1.1:53''] \<and>
   Exchange (exampleEnv firstEmpty) ''example.org.'' TypeA ''8.8.8.8:53'' = Inr [] \<and>
   Exchange (exampleEnv firstEmpty) ''example.org.'' TypeA ''1.1.1.1:53'' = Inr [upstreamRR ''example.org.'' 30]"
  by (simp add: resolve_def saveCache_def exampleEnv_def exampleConfig_def firstEmpty_def)

section \<open>The answer cache\<close>

text \<open>
  C8: an entry that \<open>resolve\<close>, or a round of \<open>ServeDNS\<close> in the revision with the
  pool, has put into the cache holds a non-empty sequence, and its \<open>expire\<close> is the clock
  plus the TTL of the first record of that sequence, in \<open>int64\<close> arithmetic; the sum is
  the mathematical one as long as it does not leave the range of \<open>int64\<close>.
\<close>
theorem expiry_is_now_plus_first_ttl:
  assumes new: "c' k = Some item" "c k \<noteq> Some item"
    and stored: "c' = snd (resolve env cfg c domain qtype) \<or>
                 c' = snd (serveQuestion2 env cfg order (answer, c) question)"
  shows "\<exists>a as. item_value item = a # as \<and>
           item_expire item = wrap64 (Now env + uint (Hdr_Ttl (Hdr a))) \<and>
           (- (2 ^ 63) \<le> Now env \<and> Now env + uint (Hdr_Ttl (Hdr a)) < 2 ^ 63 \<longrightarrow>
              item_expire item = Now env + uint (Hdr_Ttl (Hdr a)))"
proof -
  from stored new obtain key answers where "saveCache (Now env) key answers c k = Some item"
    using resolve_cache [of env cfg c domain qtype]
      serveQuestion2_cache [of env cfg order "(answer, c)" question]
    by auto
  from saveCache_new [OF this new(2)] obtain a as
    where v: "item_value item = a # as"
      and e: "item_expire item = wrap64 (Now env + uint (Hdr_Ttl (Hdr a)))"
    by blast
  have "item_expire item = Now env + uint (Hdr_Ttl (Hdr a))"
    if "- (2 ^ 63) \<le> Now env \<and> Now env + uint (Hdr_Ttl (Hdr a)) < 2 ^ 63"
  proof -
    have "0 \<le> uint (Hdr_Ttl (Hdr a))"
      by simp
    with that have "- (2 ^ 63) \<le> Now env + uint (Hdr_Ttl (Hdr a))"
      by linarith
    with that e show ?thesis
      by (simp add: wrap64_id)
  qed
  with v e show ?thesis
    by blast
qed

text \<open>Two records with TTL 30 and 10 stored at 1000 expire at 1030, not at 1010.\<close>
theorem expiry_is_now_plus_first_ttl_witness:
  "snd (resolve (exampleEnv firstFails) (exampleConfig []) Map.empty ''example.org.'' TypeA)
     (cacheKey ''example.org.'' TypeA) =
     Some \<lparr>item_expire = 1030, item_value = [upstreamRR ''example.org.'' 30, upstreamRR ''example.org.'' 10]\<rparr> \<and>
   (\<exists>a as. [upstreamRR ''example.org.'' 30, upstreamRR ''example.org.'' 10] = a # as \<and>
      (1030 :: int) = 1000 + uint (Hdr_Ttl (Hdr a)))"
proof -
  let ?answers = "[upstreamRR ''example.org.'' 30, upstreamRR ''example.org.'' 10]"
  let ?item = "\<lparr>item_expire = 1030, item_value = ?answers\<rparr>"
  let ?c' = "snd (resolve (exampleEnv firstFails) (exampleConfig []) Map.empty ''example.org.'' TypeA)"
  have new: "?c' (cacheKey ''example.org.'' TypeA) = Some ?item"
    by (simp add: resolve_def saveCache_def wrap64_def exampleEnv_def exampleConfig_def
        firstFails_def upstreamRR_def)
  have old: "Map.empty (cacheKey ''example.org.'' TypeA) \<noteq> Some ?item"
    by simp
  have stored: "?c' = snd (resolve (exampleEnv firstFails) (exampleConfig []) Map.empty ''example.org.'' TypeA) \<or>
      ?c' = snd (serveQuestion2 (exampleEnv firstFails) (exampleConfig []) [] ([], Map.empty) (ask ''example.org.'' TypeA))"
    by simp
  from expiry_is_now_plus_first_ttl [OF new old stored]
  obtain a as where "item_value ?item = a # as"
    and "- (2 ^ 63) \<le> Now (exampleEnv firstFails) \<and>
         Now (exampleEnv firstFails) + uint (Hdr_Ttl (Hdr a)) < 2 ^ 63 \<longrightarrow>
         item_expire ?item = Now (exampleEnv firstFails) + uint (Hdr_Ttl (Hdr a))"
    by blast
  then have "?answers = a # as \<and> (1030 :: int) = 1000 + uint (Hdr_Ttl (Hdr a))"
    by (auto simp: exampleEnv_def upstreamRR_def)
  with new show ?thesis
    by blast
qed



text \<open>
  C10: in every cache that a run of sweeps, forwards and rounds of \<open>ServeDNS\<close> reaches
  from the empty cache, each entry holds a non-empty answer sequence, so a cache hit
  yields at least one answer in both revisions.
\<close>
theorem cache_entries_nonempty:
  assumes "run ops Map.empty k = Some v"
  shows "item_value v \<noteq> [] \<and>
         (k = cacheKey domain qtype \<longrightarrow>
            fst (resolve env cfg (run ops Map.empty) domain qtype) = item_value v) \<and>
         (k = cacheKey (Question_Name question) (Question_Qtype question) \<longrightarrow>
            serveQuestion2 env cfg order (answer, run ops Map.empty) question =
              (answer @ item_value v, run ops Map.empty))"
proof -
  have ne: "item_value v \<noteq> []"
    using fold_applyOp_nonempty [of Map.empty ops k v] assms by (simp add: run_def)
  moreover have "fst (resolve env cfg (run ops Map.empty) domain qtype) = item_value v"
    if "k = cacheKey domain qtype"
    using assms that by (simp add: resolve_hit)
  moreover have "serveQuestion2 env cfg order (answer, run ops Map.empty) question =
      (answer @ item_value v, run ops Map.empty)"
    if "k = cacheKey (Question_Name question) (Question_Qtype question)"
    using assms that ne by (simp add: serveQuestion2_def Let_def)
  ultimately show ?thesis
    by blast
qed

text \<open>The entry left by one forward and one sweep.\<close>
theorem cache_entries_nonempty_witness:
  "run [Forward (exampleEnv allAnswer) (exampleConfig []) ''example.org.'' TypeA, Sweep 1020] Map.empty
     (cacheKey ''example.org.'' TypeA) =
     Some \<lparr>item_expire = 1030, item_value = [upstreamRR ''example.org.'' 30]\<rparr> \<and>
   item_value \<lparr>item_expire = 1030, item_value = [upstreamRR ''example.org.'' 30]\<rparr> \<noteq> []"
proof -
  have stored: "run [Forward (exampleEnv allAnswer) (exampleConfig []) ''example.org.'' TypeA, Sweep 1020] Map.empty
     (cacheKey ''example.org.'' TypeA) =
     Some \<lparr>item_expire = 1030, item_value = [upstreamRR ''example.org.'' 30]\<rparr>"
    by (simp add: run_def resolve_def saveCache_def clearCache_def wrap64_def exampleEnv_def
        exampleConfig_def allAnswer_def upstreamRR_def)
  from cache_entries_nonempty [OF stored, THEN conjunct1] stored show ?thesis
    by blast
qed

section \<open>The upstream pool\<close>

text \<open>
  C7, amended: one step of the probe loop removes the upstream from the pool only when
  the probe has failed and the failure counter, incremented by this failure, has reached
  5. As long as the counter of an upstream is at most 20, a probe is sent to it, and a
  probe that is answered with at least one record sets the counter to 0 and puts the
  upstream into the pool, whether it was demoted or not. An upstream whose counter is
  above 20 is skipped: no probe is sent and it stays as it is, out of the pool. No other
  server enters or leaves the pool in the step.
\<close>
theorem demotion_and_recovery:
  assumes step: "checkUpstream probe now up pool = (up', pool')"
  shows "(server up \<in> pool \<and> server up \<notin> pool' \<longrightarrow>
            failed up' = failed up + 1 \<and> 5 \<le> failed up' \<and>
            (probe (server up) = None \<or> probe (server up) = Some [])) \<and>
         (\<not> IsDead up \<and> (\<exists>a as. probe (server up) = Some (a # as)) \<longrightarrow>
            failed up' = 0 \<and> server up' = server up \<and> server up \<in> pool') \<and>
         (\<forall>s. s \<noteq> server up \<longrightarrow> (s \<in> pool' \<longleftrightarrow> s \<in> pool)) \<and>
         (IsDead up \<longrightarrow> up' = up \<and> pool' = pool)"
proof (cases "IsDead up")
  case True
  with step show ?thesis
    by (auto simp: checkUpstream_def)
next
  case False
  show ?thesis
  proof (cases "probe (server up)")
    case None
    with False step show ?thesis
      by (auto simp: checkUpstream_def Let_def split: if_splits)
  next
    case (Some answers)
    with False step show ?thesis
      by (cases answers) (auto simp: checkUpstream_def Let_def split: if_splits)
  qed
qed

text \<open>A demoted upstream with 7 failures recovers on one answered probe; the fifth failure demotes.\<close>
theorem demotion_and_recovery_witness:
  "checkUpstream probeAnswers 1000 \<lparr>server = ''8.8.8.8:53'', heatbeat = 990, failed = 7\<rparr> {} =
     (\<lparr>server = ''8.8.8.8:53'', heatbeat = 1000, failed = 0\<rparr>, {''8.8.8.8:53''}) \<and>
   failed \<lparr>server = ''8.8.8.8:53'', heatbeat = 1000, failed = 0\<rparr> = 0 \<and>
   ''8.8.8.8:53'' \<in> {''8.8.8.8:53''} \<and>
   checkUpstream (\<lambda>s. None) 1000 \<lparr>server = ''8.8.8.8:53'', heatbeat = 990, failed = 4\<rparr> {''8.8.8.8:53''} =
     (\<lparr>server = ''8.8.8.8:53'', heatbeat = 1000, failed = 5\<rparr>, {})"
proof -
  let ?up = "\<lparr>server = ''8.8.8.8:53'', heatbeat = 990, failed = 7\<rparr>"
  let ?up' = "\<lparr>server = ''8.8.8.8:53'', heatbeat = 1000, failed = 0\<rparr>"
  have step: "checkUpstream probeAnswers 1000 ?up {} = (?up', {''8.8.8.8:53''})"
    by (simp add: checkUpstream_def IsDead_def probeAnswers_def)
  have probed: "\<not> IsDead ?up \<and> (\<exists>a as. probeAnswers (server ?up) = Some (a # as))"
    by (simp add: IsDead_def probeAnswers_def)
  from demotion_and_recovery [OF step] probed
  have "failed ?up' = 0 \<and> server ?up' = server ?up \<and> server ?up \<in> {''8.8.8.8:53''}"
    by blast
  moreover
  have "checkUpstream (\<lambda>s. None) 1000 \<lparr>server = ''8.8.8.8:53'', heatbeat = 990, failed = 4\<rparr> {''8.8.8.8:53''} =
     (\<lparr>server = ''8.8.8.8:53'', heatbeat = 1000, failed = 5\<rparr>, {})"
    by (simp add: checkUpstream_def IsDead_def)
  ultimately show ?thesis
    using step by simp
qed

text \<open>
  C7 as stated fails: after one answered round and 21 failed ones both upstreams have 21
  failures and are out of the pool; the servers answer again in the two rounds that
  follow, and neither upstream is probed or restored.
\<close>
theorem dead_upstream_counterexample:
  "watch ((probeAnswers, 1000) # replicate 21 (\<lambda>s. None, 1010)) (watchInit (exampleConfig [])) =
     ([\<lparr>server = ''8.8.8.8:53'', heatbeat = 1010, failed = 21\<rparr>,
       \<lparr>server = ''1.1.1.1:53'', heatbeat = 1010, failed = 21\<rparr>], {}) \<and>
   probeAnswers ''8.8.8.8:53'' = Some [upstreamRR ''www.baidu.com.'' 30] \<and>
   watch [(probeAnswers, 2000), (probeAnswers, 2010)]
     ([\<lparr>server = ''8.8.8.8:53'', heatbeat = 1010, failed = 21\<rparr>,
       \<lparr>server = ''1.1.1.1:53'', heatbeat = 1010, failed = 21\<rparr>], {}) =
     ([\<lparr>server = ''8.8.8.8:53'', heatbeat = 1010, failed = 21\<rparr>,
       \<lparr>server = ''1.1.1.1:53'', heatbeat = 1010, failed = 21\<rparr>], {})"
  by (simp add: watchInit_def exampleConfig_def checkUpstream_def IsDead_def probeAnswers_def
      eval_nat_numeral insert_Diff_if)

end
